theory Spec2Isabelle
  imports Main "HOL-Library.Log_Nat"
begin

section \<open>JavaScript values, errors and strings\<close>

text \<open>
  The values an action's \<open>args\<close> object holds. Numbers are the integer-valued ones (pixel
  and normalized coordinates, key codes); an absent property reads as \<open>JUndefined\<close>.
\<close>

datatype jsval = JUndefined | JNumber int | JString string | JBoolean bool

text \<open>
  A thrown value: an \<open>Error\<close> object with its \<open>name\<close> and \<open>message\<close>, or any other
  value (with its string form).
\<close>

datatype js_error = Error string string | Thrown string

text \<open>\<^verbatim>\<open>error instanceof Error ? error.message : 'Unknown error'\<close>\<close>

fun error_message :: "js_error \<Rightarrow> string" where
  "error_message (Error n m) = m"
| "error_message (Thrown v) = ''Unknown error''"

text \<open>\<^verbatim>\<open>String(error)\<close>\<close>

fun error_String :: "js_error \<Rightarrow> string" where
  "error_String (Error n m) = (if m = [] then n else if n = [] then m else n @ '': '' @ m)"
| "error_String (Thrown v) = v"

text \<open>Decimal digits of a number, as a template literal prints an integer.\<close>

function showNat :: "nat \<Rightarrow> string" where
  "showNat n =
     (if n < 10 then [''0123456789'' ! n]
      else showNat (n div 10) @ [''0123456789'' ! (n mod 10)])"
  by pat_completeness auto
termination
  by (relation "measure (\<lambda>n. n)") auto

declare showNat.simps [simp del]

definition showInt :: "int \<Rightarrow> string" where
  "showInt i = (if i < 0 then ''-'' @ showNat (nat (- i)) else showNat (nat i))"

text \<open>The conversion a template literal \<^verbatim>\<open>${v}\<close> applies.\<close>

fun toStr :: "jsval \<Rightarrow> string" where
  "toStr JUndefined = ''undefined''"
| "toStr (JNumber i) = showInt i"
| "toStr (JString s) = s"
| "toStr (JBoolean b) = (if b then ''true'' else ''false'')"

text \<open>
  \<^verbatim>\<open>String.prototype.toLowerCase\<close> on ASCII text: the letters A to Z move to a to z, every
  other character stays.
\<close>

definition lowerChar :: "char \<Rightarrow> char" where
  "lowerChar c =
     (let n = (of_char c :: nat) in if 65 \<le> n \<and> n \<le> 90 then char_of (n + 32) else c)"

definition toLowerCase :: "string \<Rightarrow> string" where
  "toLowerCase s = map lowerChar s"

text \<open>\<^verbatim>\<open>String.prototype.includes\<close>: the second string occurs in the first as a block.\<close>

fun startsWith :: "string \<Rightarrow> string \<Rightarrow> bool" where
  "startsWith s [] = True"
| "startsWith [] (k # ks) = False"
| "startsWith (c # cs) (k # ks) = (c = k \<and> startsWith cs ks)"

fun includesStr :: "string \<Rightarrow> string \<Rightarrow> bool" where
  "includesStr [] k = startsWith [] k"
| "includesStr (c # cs) k = (startsWith (c # cs) k \<or> includesStr cs k)"

section \<open>The data model (types)\<close>

datatype decision = Allowed | RequireConfirmation | Blocked

record SafetyDecision =
  explanation :: string
  decision :: decision

record ComputerAction =
  name :: string
  args :: "(string \<times> jsval) list"
  safetyDecision :: "SafetyDecision option"

text \<open>\<^verbatim>\<open>action.args.k\<close>: a missing property is \<open>undefined\<close>.\<close>

definition arg :: "ComputerAction \<Rightarrow> string \<Rightarrow> jsval" where
  "arg a k = (case map_of (args a) k of None \<Rightarrow> JUndefined | Some v \<Rightarrow> v)"

text \<open>\<^verbatim>\<open>action.safetyDecision?.decision === 'require_confirmation'\<close>\<close>

definition requiresConfirmation :: "ComputerAction \<Rightarrow> bool" where
  "requiresConfirmation a =
     (case safetyDecision a of None \<Rightarrow> False | Some d \<Rightarrow> decision d = RequireConfirmation)"

section \<open>The risk classifier of the safety modal\<close>

definition highRiskActions :: "string list" where
  "highRiskActions =
     [''delete'', ''remove'', ''format'', ''wipe'', ''shutdown'', ''restart'',
      ''payment'', ''transfer'', ''send'', ''delete_file'', ''delete_folder'']"

text \<open>
  \<open>getRiskLevel\<close> of the modal. \<^verbatim>\<open>JSON.stringify\<close> is the language's serializer; it is the
  parameter \<open>stringify\<close>.
\<close>

definition getRiskLevel :: "((string \<times> jsval) list \<Rightarrow> string) \<Rightarrow> ComputerAction \<Rightarrow> string" where
  "getRiskLevel stringify a =
     (let actionStr = toLowerCase (name a @ '' '' @ stringify (args a));
          isHighRisk = list_ex (\<lambda>risk. includesStr actionStr risk) highRiskActions
      in if isHighRisk then ''high'' else ''medium'')"

section \<open>Activity log, tasks, sessions and the dashboard state\<close>

text \<open>
  An entry of the action stream (\<open>AIAction\<close>). Its \<open>id\<close> and \<open>timestamp\<close> are read from the
  clock and are left out; \<open>entry_type\<close> is the field \<open>type\<close>, \<open>entry_args\<close> the field \<open>args\<close>.
\<close>

datatype action_type = Observation | Reasoning | Action | SafetyCheck | ErrorEntry

record AIAction =
  entry_type :: action_type
  content :: string
  entry_args :: "(string \<times> jsval) list option"

datatype task_status = Pending | InProgress | Completed | Failed | Cancelled

datatype task_priority = LowPriority | MediumPriority | HighPriority

text \<open>
  \<open>task_id\<close> is the number in \<^verbatim>\<open>task-${Date.now()}\<close>, \<open>sessionId\<close> the number in the
  session's \<^verbatim>\<open>session-${Date.now()}\<close>.
\<close>

record AgentTask =
  task_id :: nat
  sessionId :: nat
  description :: string
  status :: task_status
  priority :: task_priority
  createdAt :: nat
  completedAt :: "nat option"
  actions :: "AIAction list"
  error :: "string option"

datatype session_status = Idle | Thinking | Acting | SessionError | Stopped

record AgentSession =
  session_id :: nat
  session_status :: session_status

text \<open>
  The modal's request. Its two callbacks are closures over \<open>action\<close> alone; they are the
  functions \<open>onApprove\<close> and \<open>onDeny\<close> below.
\<close>

record SafetyModal =
  action :: ComputerAction
  screenshot :: "string option"
  reasoning :: string
  timeout :: int

text \<open>The calls the dashboard makes on the remote-session hook (\<open>vnc\<close>).\<close>

datatype vnc_call =
  sendMouseEvent jsval jsval int
| sendKeyboardEvent int bool
| connect
| disconnect

text \<open>
  The state of the dashboard: the fields of \<open>UISession\<close> that it writes, its
  \<open>currentScreenshot\<close>, the calls made on the remote-session hook so far (\<open>vncCalls\<close>, a call
  that raises included), the number of pending 500 ms screenshot timers, and the
  \<open>timeLeft\<close> state of the mounted modal component (\<open>None\<close> when no modal is mounted).
\<close>

record dashboard =
  currentSession :: "AgentSession option"
  isVNCConnected :: bool
  safetyModal :: "SafetyModal option"
  taskQueue :: "AgentTask list"
  actionStream :: "AIAction list"
  currentScreenshot :: "string option"
  vncCalls :: "vnc_call list"
  captureTimers :: nat
  timeLeft :: "int option"

text \<open>
  What lies outside the dashboard: which calls on the remote-session hook raise (and
  what), what \<open>vnc.takeScreenshot()\<close> returns, and the message of the engine's TypeError.
\<close>

record environment =
  throws :: "vnc_call \<Rightarrow> js_error option"
  capture :: "string option"
  typeErrorMessage :: string

text \<open>Truthiness of a \<^verbatim>\<open>string | null\<close>: null and the empty string are falsy.\<close>

definition truthy :: "string option \<Rightarrow> bool" where
  "truthy v = (case v of None \<Rightarrow> False | Some s \<Rightarrow> s \<noteq> [])"

definition addActionToStream :: "AIAction \<Rightarrow> dashboard \<Rightarrow> dashboard" where
  "addActionToStream e s = s\<lparr>actionStream := actionStream s @ [e]\<rparr>"

section \<open>The executor\<close>

definition getActionReasoning :: "ComputerAction \<Rightarrow> string" where
  "getActionReasoning a =
     (if name a = ''click_at'' then
        ''I need to click at position ('' @ toStr (arg a ''x'') @ '', '' @ toStr (arg a ''y'')
          @ '') to interact with the UI element''
      else if name a = ''type_text_at'' then
        ''I need to type '' @ [CHR 0x22] @ toStr (arg a ''text'') @ [CHR 0x22]
          @ '' into the input field at position ('' @ toStr (arg a ''x'') @ '', ''
          @ toStr (arg a ''y'') @ '')''
      else if name a = ''navigate'' then
        ''I need to navigate to '' @ toStr (arg a ''url'') @ '' to continue the task''
      else if name a = ''key_combination'' then
        ''I need to press '' @ toStr (arg a ''keys'') @ '' to perform the required action''
      else if name a = ''scroll_at'' \<or> name a = ''scroll_document'' then
        ''I need to scroll '' @ toStr (arg a ''direction'') @ '' to find the target element''
      else ''Executing '' @ name a @ '' action'')"

text \<open>
  The \<open>switch\<close> of \<open>executeAction\<close>: the calls on the hook, in order, or the TypeError of
  \<^verbatim>\<open>keys.toLowerCase()\<close> on a value that is no string (raised before any call).
\<close>

definition actionCalls :: "environment \<Rightarrow> ComputerAction \<Rightarrow> js_error + vnc_call list" where
  "actionCalls env a =
     (if name a = ''click_at'' \<or> name a = ''hover_at'' then
        Inr [sendMouseEvent (arg a ''x'') (arg a ''y'') (if name a = ''click_at'' then 1 else 0)]
      else if name a = ''type_text_at'' then
        Inr [sendMouseEvent (arg a ''x'') (arg a ''y'') 1, sendKeyboardEvent 0 False]
      else if name a = ''key_combination'' then
        (case arg a ''keys'' of
           JString k \<Rightarrow>
             Inr (if toLowerCase k = ''enter''
                  then [sendKeyboardEvent 13 True, sendKeyboardEvent 13 False] else [])
         | _ \<Rightarrow> Inl (Error ''TypeError'' (typeErrorMessage env)))
      else Inr [])"

text \<open>Making the calls one after the other; the first that raises ends the run.\<close>

fun runCalls :: "environment \<Rightarrow> vnc_call list \<Rightarrow> dashboard \<Rightarrow> js_error option \<times> dashboard" where
  "runCalls env [] s = (None, s)"
| "runCalls env (c # cs) s =
     (let s' = s\<lparr>vncCalls := vncCalls s @ [c]\<rparr>
      in case throws env c of Some e \<Rightarrow> (Some e, s') | None \<Rightarrow> runCalls env cs s')"

text \<open>The \<open>catch\<close> block of \<open>executeAction\<close>.\<close>

definition executeFailed :: "ComputerAction \<Rightarrow> js_error \<Rightarrow> dashboard \<Rightarrow> dashboard" where
  "executeFailed a e s =
     addActionToStream
       \<lparr>entry_type = ErrorEntry,
        content = ''Failed to execute '' @ name a @ '': '' @ error_message e,
        entry_args = None\<rparr> s"

text \<open>
  \<open>executeAction\<close>. It returns normally in every case: the \<open>catch\<close> block logs and does not
  raise again. The 100 ms pause inside \<open>type_text_at\<close> is not a step of its own here.
\<close>

definition executeAction :: "environment \<Rightarrow> ComputerAction \<Rightarrow> dashboard \<Rightarrow> dashboard" where
  "executeAction env a s =
     (let s1 = addActionToStream
                 \<lparr>entry_type = Reasoning, content = getActionReasoning a, entry_args = None\<rparr> s
      in case actionCalls env a of
           Inl e \<Rightarrow> executeFailed a e s1
         | Inr cs \<Rightarrow>
             (case runCalls env cs s1 of
                (Some e, s2) \<Rightarrow> executeFailed a e s2
              | (None, s2) \<Rightarrow> s2\<lparr>captureTimers := Suc (captureTimers s2)\<rparr>))"

text \<open>
  Every run of \<open>executeAction\<close> starts by appending one \<open>reasoning\<close> entry, and nothing else
  appends one: the number of these entries counts the invocations of the executor.
\<close>

definition executorInvocations :: "dashboard \<Rightarrow> nat" where
  "executorInvocations s = length (filter (\<lambda>e. entry_type e = Reasoning) (actionStream s))"

section \<open>The approval gate\<close>

definition explanationOf :: "ComputerAction \<Rightarrow> string" where
  "explanationOf a = (case safetyDecision a of None \<Rightarrow> [] | Some d \<Rightarrow> explanation d)"

definition onApprove :: "environment \<Rightarrow> SafetyModal \<Rightarrow> dashboard \<Rightarrow> dashboard" where
  "onApprove env m s = (executeAction env (action m) s)\<lparr>safetyModal := None\<rparr>"

definition onDeny :: "SafetyModal \<Rightarrow> dashboard \<Rightarrow> dashboard" where
  "onDeny m s =
     (addActionToStream
        \<lparr>entry_type = ErrorEntry,
         content = ''Action denied by user: '' @ name (action m),
         entry_args = None\<rparr> s)\<lparr>safetyModal := None\<rparr>"

definition processAction ::
    "environment \<Rightarrow> ComputerAction \<Rightarrow> string option \<Rightarrow> dashboard \<Rightarrow> dashboard" where
  "processAction env a shot s =
     (let s1 = addActionToStream
                 \<lparr>entry_type = (if requiresConfirmation a then SafetyCheck else Action),
                  content = ''Executing: '' @ name a,
                  entry_args = Some (args a)\<rparr> s
      in if requiresConfirmation a then
           s1\<lparr>safetyModal :=
                 Some \<lparr>action = a, screenshot = shot, reasoning = explanationOf a, timeout = 30\<rparr>\<rparr>
         else executeAction env a s1)"

text \<open>
  The modal component. React mounts it when \<open>safetyModal\<close> becomes non-null, with
  \<open>timeLeft\<close> starting at the \<open>timeout\<close> prop; it keeps its state while a modal stays in the
  slot and drops it when the slot is null again.
\<close>

definition render :: "dashboard \<Rightarrow> dashboard" where
  "render s =
     (case safetyModal s of
        None \<Rightarrow> s\<lparr>timeLeft := None\<rparr>
      | Some m \<Rightarrow> (case timeLeft s of None \<Rightarrow> s\<lparr>timeLeft := Some (timeout m)\<rparr> | Some t \<Rightarrow> s))"

text \<open>
  One firing of the modal's 1000 ms interval. The effect registers no interval when
  \<open>timeLeft \<le> 0\<close>; otherwise the callback counts down and calls \<open>onDeny\<close> at \<open>prev \<le> 1\<close>.
\<close>

definition intervalFires :: "dashboard \<Rightarrow> dashboard" where
  "intervalFires s =
     (case safetyModal s of
        None \<Rightarrow> s
      | Some m \<Rightarrow>
          (case timeLeft s of
             None \<Rightarrow> s
           | Some t \<Rightarrow>
               if t \<le> 0 then s
               else if t \<le> 1 then render ((onDeny m s)\<lparr>timeLeft := Some 0\<rparr>)
               else s\<lparr>timeLeft := Some (t - 1)\<rparr>))"

primrec ticks :: "nat \<Rightarrow> dashboard \<Rightarrow> dashboard" where
  "ticks 0 s = s"
| "ticks (Suc n) s = ticks n (intervalFires s)"

text \<open>The two buttons of the mounted modal.\<close>

definition clickDeny :: "dashboard \<Rightarrow> dashboard" where
  "clickDeny s =
     (case safetyModal s of
        None \<Rightarrow> s
      | Some m \<Rightarrow> (case timeLeft s of None \<Rightarrow> s | Some t \<Rightarrow> render (onDeny m s)))"

definition clickApprove :: "environment \<Rightarrow> dashboard \<Rightarrow> dashboard" where
  "clickApprove env s =
     (case safetyModal s of
        None \<Rightarrow> s
      | Some m \<Rightarrow> (case timeLeft s of None \<Rightarrow> s | Some t \<Rightarrow> render (onApprove env m s)))"

section \<open>The task runner\<close>

text \<open>\<^verbatim>\<open>currentScreenshot || vnc.takeScreenshot()\<close>\<close>

definition takeCapture :: "environment \<Rightarrow> dashboard \<Rightarrow> string option" where
  "takeCapture env s = (if truthy (currentScreenshot s) then currentScreenshot s else capture env)"

text \<open>\<^verbatim>\<open>screenshot || undefined\<close>\<close>

definition orUndefined :: "string option \<Rightarrow> string option" where
  "orUndefined v = (if truthy v then v else None)"

text \<open>
  \<open>handleTaskSubmit\<close> up to \<^verbatim>\<open>await gemini.sendRequest(...)\<close>; \<open>now\<close> is the clock when the task
  is created.
\<close>

definition submitTask :: "environment \<Rightarrow> nat \<Rightarrow> string \<Rightarrow> dashboard \<Rightarrow> dashboard" where
  "submitTask env now taskDescription s =
     (case currentSession s of
        None \<Rightarrow>
          addActionToStream
            \<lparr>entry_type = ErrorEntry,
             content = ''No active session. Please start a session first.'',
             entry_args = None\<rparr> s
      | Some sess \<Rightarrow>
          (let task = \<lparr>task_id = now, sessionId = session_id sess,
                       description = taskDescription, status = InProgress,
                       priority = MediumPriority, createdAt = now, completedAt = None,
                       actions = [], error = None\<rparr>;
               s1 = s\<lparr>taskQueue := taskQueue s @ [task]\<rparr>;
               s2 = addActionToStream
                      \<lparr>entry_type = Observation,
                       content = ''Received task: '' @ [CHR 0x22] @ taskDescription @ [CHR 0x22],
                       entry_args = None\<rparr> s1
           in if truthy (takeCapture env s) then s2\<lparr>currentScreenshot := takeCapture env s\<rparr>
              else s2))"

text \<open>The \<open>for\<close> loop over the model's actions, one \<open>await processAction\<close> after the other.\<close>

primrec processActions ::
    "environment \<Rightarrow> ComputerAction list \<Rightarrow> string option \<Rightarrow> dashboard \<Rightarrow> dashboard" where
  "processActions env [] shot s = s"
| "processActions env (a # as) shot s = processActions env as shot (processAction env a shot s)"

definition markCompleted :: "nat \<Rightarrow> nat \<Rightarrow> dashboard \<Rightarrow> dashboard" where
  "markCompleted tid doneAt s =
     s\<lparr>taskQueue :=
         map (\<lambda>t. if task_id t = tid then t\<lparr>status := Completed, completedAt := Some doneAt\<rparr> else t)
           (taskQueue s)\<rparr>"

definition markFailed :: "nat \<Rightarrow> js_error \<Rightarrow> dashboard \<Rightarrow> dashboard" where
  "markFailed tid e s =
     s\<lparr>taskQueue :=
         map (\<lambda>t. if task_id t = tid then t\<lparr>status := Failed, error := Some (error_String e)\<rparr> else t)
           (taskQueue s)\<rparr>"

text \<open>
  \<open>handleTaskSubmit\<close> from the point where \<open>gemini.sendRequest\<close> settles: \<open>response\<close> is the list
  of actions it resolved to, or what it rejected with; \<open>tid\<close> and \<open>shot\<close> are the task's id
  and the screenshot the closure holds; \<open>doneAt\<close> is the clock at completion.
\<close>

definition taskResponse ::
    "environment \<Rightarrow> nat \<Rightarrow> string option \<Rightarrow> js_error + ComputerAction list \<Rightarrow> nat
      \<Rightarrow> dashboard \<Rightarrow> dashboard" where
  "taskResponse env tid shot response doneAt s =
     (case response of
        Inr acts \<Rightarrow> markCompleted tid doneAt (processActions env acts (orUndefined shot) s)
      | Inl e \<Rightarrow>
          markFailed tid e
            (addActionToStream
               \<lparr>entry_type = ErrorEntry,
                content = ''Task failed: '' @ error_message e,
                entry_args = None\<rparr> s))"

text \<open>\<open>handleTaskSubmit\<close> run from start to end with nothing else in between.\<close>

definition handleTaskSubmit ::
    "environment \<Rightarrow> nat \<Rightarrow> string \<Rightarrow> js_error + ComputerAction list \<Rightarrow> nat
      \<Rightarrow> dashboard \<Rightarrow> dashboard" where
  "handleTaskSubmit env now taskDescription response doneAt s =
     (case currentSession s of
        None \<Rightarrow> submitTask env now taskDescription s
      | Some sess \<Rightarrow>
          taskResponse env now (takeCapture env s) response doneAt
            (submitTask env now taskDescription s))"

section \<open>Session control\<close>

definition startSession :: "nat \<Rightarrow> dashboard \<Rightarrow> dashboard" where
  "startSession now s =
     s\<lparr>currentSession := Some \<lparr>session_id = now, session_status = Idle\<rparr>,
       vncCalls := vncCalls s @ [connect]\<rparr>"

definition stopSession :: "environment \<Rightarrow> dashboard \<Rightarrow> dashboard" where
  "stopSession env s =
     (let s1 = s\<lparr>vncCalls := vncCalls s @ [disconnect]\<rparr>
      in case throws env disconnect of
           Some e \<Rightarrow> s1
         | None \<Rightarrow> s1\<lparr>currentSession := None, isVNCConnected := False, actionStream := []\<rparr>)"

definition emergencyStop :: "environment \<Rightarrow> dashboard \<Rightarrow> dashboard" where
  "emergencyStop env s =
     (let s1 = s\<lparr>vncCalls := vncCalls s @ [disconnect]\<rparr>
      in case throws env disconnect of
           Some e \<Rightarrow> s1
         | None \<Rightarrow>
             addActionToStream
               \<lparr>entry_type = ErrorEntry,
                content = ''Emergency stop activated by user'',
                entry_args = None\<rparr>
               (s1\<lparr>currentSession :=
                      map_option (\<lambda>c. c\<lparr>session_status := Stopped\<rparr>) (currentSession s1),
                    safetyModal := None\<rparr>))"

text \<open>The dashboard as it is first rendered, and a quiet environment.\<close>

definition initial :: dashboard where
  "initial =
     \<lparr>currentSession = None, isVNCConnected = False, safetyModal = None, taskQueue = [],
      actionStream = [], currentScreenshot = None, vncCalls = [], captureTimers = 0,
      timeLeft = None\<rparr>"

definition quiet :: environment where
  "quiet = \<lparr>throws = (\<lambda>c. None), capture = None, typeErrorMessage = ''not a function''\<rparr>"

section \<open>What an action raises, and the inputs of the examples\<close>

text \<open>
  What the \<open>try\<close> block of \<open>executeAction\<close> raises for an action, if anything: the TypeError
  of the \<open>switch\<close>, or what the first raising call on the hook raises.
\<close>

primrec firstRaise :: "environment \<Rightarrow> vnc_call list \<Rightarrow> js_error option" where
  "firstRaise env [] = None"
| "firstRaise env (c # cs) = (case throws env c of Some e \<Rightarrow> Some e | None \<Rightarrow> firstRaise env cs)"

definition raises :: "environment \<Rightarrow> ComputerAction \<Rightarrow> js_error option" where
  "raises env a = (case actionCalls env a of Inl e \<Rightarrow> Some e | Inr cs \<Rightarrow> firstRaise env cs)"

text \<open>Three descriptors and a state used as concrete inputs.\<close>

definition rcClick :: ComputerAction where
  "rcClick = \<lparr>name = ''click_at'', args = [(''x'', JNumber 1), (''y'', JNumber 2)],
       safetyDecision = Some \<lparr>explanation = ''submits a form'', decision = RequireConfirmation\<rparr>\<rparr>"

definition okClick :: ComputerAction where
  "okClick = \<lparr>name = ''click_at'', args = [(''x'', JNumber 5), (''y'', JNumber 6)],
       safetyDecision = Some \<lparr>explanation = ''harmless'', decision = Allowed\<rparr>\<rparr>"

definition rcDelete :: ComputerAction where
  "rcDelete = \<lparr>name = ''key_combination'', args = [(''keys'', JString ''Enter'')],
       safetyDecision = Some \<lparr>explanation = ''confirms a deletion'', decision = RequireConfirmation\<rparr>\<rparr>"

text \<open>
  A session in which a first task has left its request pending (its loop is over, so it is
  already marked completed) and a second task waits for the model's answer.
\<close>

definition awaitingModel :: dashboard where
  "awaitingModel =
     render (submitTask quiet 4 ''and then the next page''
       (render (handleTaskSubmit quiet 2 ''submit the form'' (Inr [rcClick]) 3
          (startSession 1 initial))))"

section \<open>Denormalization of coordinates\<close>

text \<open>
  \<open>denormalizeCoordinates\<close> of the model hook computes on JavaScript numbers, which are
  binary64 floating-point values. A finite double is a rational; each arithmetic operation
  returns the exact result rounded to 53 significant bits, to nearest, ties to the even
  significand. The exponent range is left unbounded here (no overflow, no subnormals),
  which is exact for every value between \<open>2 powi -1022\<close> and \<open>2 powi 1024\<close>.

  \<open>expo q\<close> is the binary exponent of a positive \<open>q\<close>: \<open>2 powi expo q \<le> q < 2 powi (expo q + 1)\<close>.
\<close>

definition expo :: "rat \<Rightarrow> int" where
  "expo q = (if 1 \<le> q then bitlen \<lfloor>q\<rfloor> - 1 else - bitlen (\<lceil>1 / q\<rceil> - 1))"

text \<open>
  The integer nearest to \<open>m\<close>, the even one of the two when \<open>m\<close> lies halfway.
\<close>

definition roundHalfEven :: "rat \<Rightarrow> int" where
  "roundHalfEven m =
     (let f = \<lfloor>m\<rfloor>; d = m - of_int f
      in if d < 1 / 2 then f else if 1 / 2 < d then f + 1 else if even f then f else f + 1)"

text \<open>
  Rounding an exact value to a double: the significand \<open>q / 2 powi (expo q - 52)\<close>, which
  lies between \<open>2 ^ 52\<close> and \<open>2 ^ 53\<close>, is rounded to an integer.
\<close>

definition fl :: "rat \<Rightarrow> rat" where
  "fl q =
     (if q = 0 then 0
      else if q < 0 then - (of_int (roundHalfEven (- q / 2 powi (expo (- q) - 52))) * 2 powi (expo (- q) - 52))
      else of_int (roundHalfEven (q / 2 powi (expo q - 52))) * 2 powi (expo q - 52))"

text \<open>
  \<^verbatim>\<open>Math.round\<close>: the nearest integer, a value halfway between two going to the larger.
\<close>

definition jsRound :: "rat \<Rightarrow> int" where
  "jsRound v = \<lfloor>v + 1 / 2\<rfloor>"

text \<open>
  \<^verbatim>\<open>Math.round((x / 1000) * screenWidth)\<close> and the same for \<open>y\<close>: a division and a product,
  each rounded to a double, then \<^verbatim>\<open>Math.round\<close>. The four arguments are integer-valued
  doubles (exact below \<open>2 ^ 53\<close>); so is the constant 1000.
\<close>

definition denormalizeCoordinates :: "int \<Rightarrow> int \<Rightarrow> int \<Rightarrow> int \<Rightarrow> int \<times> int" where
  "denormalizeCoordinates x y screenWidth screenHeight =
     (jsRound (fl (fl (of_int x / 1000) * of_int screenWidth)),
      jsRound (fl (fl (of_int y / 1000) * of_int screenHeight)))"

text \<open>
  The specification's formula \<open>round(x/1000*W)\<close> read over exact arithmetic, with the
  rounding of \<^verbatim>\<open>Math.round\<close>. It is the term of comparison, not part of the program.
\<close>

definition exactRound :: "int \<Rightarrow> int \<Rightarrow> int" where
  "exactRound x w = \<lfloor>(of_int x / 1000) * of_int w + (1 / 2 :: rat)\<rfloor>"

section \<open>Frame and counting lemmas\<close>

lemma runCalls_frame:
  "actionStream (snd (runCalls env cs s)) = actionStream s \<and>
   safetyModal (snd (runCalls env cs s)) = safetyModal s \<and>
   taskQueue (snd (runCalls env cs s)) = taskQueue s \<and>
   currentSession (snd (runCalls env cs s)) = currentSession s \<and>
   timeLeft (snd (runCalls env cs s)) = timeLeft s"
  by (induction cs arbitrary: s) (auto simp: Let_def split: option.splits)

lemma runCalls_frameD:
  assumes "runCalls env cs s = (r, s')"
  shows "actionStream s' = actionStream s" and "safetyModal s' = safetyModal s"
    and "taskQueue s' = taskQueue s" and "currentSession s' = currentSession s"
    and "timeLeft s' = timeLeft s"
  using runCalls_frame [of env cs s] assms by simp_all

lemma executeAction_frame:
  "safetyModal (executeAction env a s) = safetyModal s \<and>
   taskQueue (executeAction env a s) = taskQueue s \<and>
   currentSession (executeAction env a s) = currentSession s \<and>
   timeLeft (executeAction env a s) = timeLeft s"
  by (auto simp: executeAction_def executeFailed_def addActionToStream_def Let_def
        split: sum.splits option.splits prod.splits dest: runCalls_frameD)

lemma executeAction_invocations:
  "executorInvocations (executeAction env a s) = Suc (executorInvocations s)"
  by (auto simp: executeAction_def executeFailed_def addActionToStream_def Let_def executorInvocations_def
        split: sum.splits option.splits prod.splits dest: runCalls_frameD)

lemma startsWith_iff: "startsWith s k \<longleftrightarrow> (\<exists>q. s = k @ q)"
  by (induction s k rule: startsWith.induct) auto

lemma includesStr_iff: "includesStr s k \<longleftrightarrow> (\<exists>p q. s = p @ k @ q)"
proof (induction s)
  case Nil
  then show ?case by (cases k) auto
next
  case (Cons c cs)
  show ?case
  proof
    assume "includesStr (c # cs) k"
    then consider "startsWith (c # cs) k" | "includesStr cs k" by auto
    then show "\<exists>p q. c # cs = p @ k @ q"
    proof cases
      case 1
      then obtain q where "c # cs = k @ q" by (auto simp: startsWith_iff)
      then have "c # cs = [] @ k @ q" by simp
      then show ?thesis by blast
    next
      case 2
      then obtain p q where "cs = p @ k @ q" using Cons.IH by blast
      then have "c # cs = (c # p) @ k @ q" by simp
      then show ?thesis by blast
    qed
  next
    assume "\<exists>p q. c # cs = p @ k @ q"
    then obtain p q where pq: "c # cs = p @ k @ q" by blast
    show "includesStr (c # cs) k"
    proof (cases p)
      case Nil
      with pq have "startsWith (c # cs) k" by (auto simp: startsWith_iff)
      then show ?thesis by simp
    next
      case (Cons c' p')
      with pq have "cs = p' @ k @ q" by simp
      then have "includesStr cs k" using Cons.IH by blast
      then show ?thesis by simp
    qed
  qed
qed

lemma processAction_invocations:
  "executorInvocations (processAction env a shot s) =
     (if requiresConfirmation a then executorInvocations s else Suc (executorInvocations s))"
  by (simp add: processAction_def Let_def executeAction_invocations)
     (simp add: executorInvocations_def addActionToStream_def)

lemma runCalls_fst: "fst (runCalls env cs s) = firstRaise env cs"
  by (induction cs arbitrary: s) (auto simp: Let_def split: option.splits)

lemma processAction_frame:
  "taskQueue (processAction env a shot s) = taskQueue s \<and>
   currentSession (processAction env a shot s) = currentSession s"
  by (simp add: processAction_def Let_def executeAction_frame addActionToStream_def)

lemma processActions_frame:
  "taskQueue (processActions env acts shot s) = taskQueue s \<and>
   currentSession (processActions env acts shot s) = currentSession s"
  by (induction acts arbitrary: s) (simp_all add: processAction_frame)

lemma executeAction_raises:
  assumes "raises env a = Some e"
  shows "actionStream (executeAction env a s) = actionStream s @
     [\<lparr>entry_type = Reasoning, content = getActionReasoning a, entry_args = None\<rparr>,
      \<lparr>entry_type = ErrorEntry,
       content = ''Failed to execute '' @ name a @ '': '' @ error_message e, entry_args = None\<rparr>]"
proof (cases "actionCalls env a")
  case (Inl e')
  with assms show ?thesis
    by (simp add: raises_def executeAction_def executeFailed_def addActionToStream_def Let_def)
next
  case (Inr cs)
  let ?s1 = "addActionToStream \<lparr>entry_type = Reasoning, content = getActionReasoning a, entry_args = None\<rparr> s"
  obtain r s2 where rc: "runCalls env cs ?s1 = (r, s2)" by (cases "runCalls env cs ?s1")
  have "r = Some e" using runCalls_fst [of env cs ?s1] rc assms Inr by (simp add: raises_def)
  moreover have "actionStream s2 = actionStream ?s1" using rc by (rule runCalls_frameD)
  ultimately show ?thesis using Inr rc
    by (simp add: executeAction_def executeFailed_def addActionToStream_def Let_def)
qed

lemma handleTaskSubmit_completed:
  assumes "currentSession s = Some sess"
  shows "status (last (taskQueue (handleTaskSubmit env now d (Inr acts) doneAt s))) = Completed"
proof -
  let ?s1 = "submitTask env now d s"
  obtain t where t: "taskQueue ?s1 = taskQueue s @ [t]" "task_id t = now"
    using assms by (auto simp: submitTask_def Let_def addActionToStream_def)
  have "taskQueue (processActions env acts (orUndefined (takeCapture env s)) ?s1) = taskQueue s @ [t]"
    using t by (simp add: processActions_frame)
  then show ?thesis
    using assms t by (simp add: handleTaskSubmit_def taskResponse_def markCompleted_def)
qed

lemma handleTaskSubmit_failed:
  assumes "currentSession s = Some sess"
  shows "status (last (taskQueue (handleTaskSubmit env now d (Inl e) doneAt s))) = Failed"
  using assms
  by (simp add: handleTaskSubmit_def taskResponse_def markFailed_def submitTask_def Let_def
      addActionToStream_def)

lemma executeAction_stream:
  "\<exists>rest. actionStream (executeAction env a s) = actionStream s @
     [\<lparr>entry_type = Reasoning, content = getActionReasoning a, entry_args = None\<rparr>] @ rest"
  by (auto simp: executeAction_def executeFailed_def addActionToStream_def Let_def
        split: sum.splits option.splits prod.splits dest: runCalls_frameD)

lemma ticks_nonpositive:
  "safetyModal s = Some m \<Longrightarrow> timeLeft s = Some t \<Longrightarrow> t \<le> 0 \<Longrightarrow> ticks n s = s"
  by (induction n) (simp_all add: intervalFires_def)

lemma ticks_countdown:
  "safetyModal s = Some m \<Longrightarrow> timeLeft s = Some t \<Longrightarrow> int k < t \<Longrightarrow>
   ticks k s = s\<lparr>timeLeft := Some (t - int k)\<rparr>"
proof (induction k arbitrary: s t)
  case 0
  then show ?case by simp
next
  case (Suc k)
  have step: "intervalFires s = s\<lparr>timeLeft := Some (t - 1)\<rparr>"
    using Suc.prems by (simp add: intervalFires_def)
  have "ticks k (s\<lparr>timeLeft := Some (t - 1)\<rparr>)
          = (s\<lparr>timeLeft := Some (t - 1)\<rparr>)\<lparr>timeLeft := Some (t - 1 - int k)\<rparr>"
    using Suc.prems by (intro Suc.IH) simp_all
  with step show ?case by (simp add: algebra_simps)
qed

lemma ticks_Suc_end: "ticks (Suc n) s = intervalFires (ticks n s)"
  by (induction n arbitrary: s) simp_all

lemma ticks_expiry:
  assumes "safetyModal s = Some m" "timeLeft s = Some (int (Suc k))"
  shows "ticks (Suc k) s = clickDeny s"
proof -
  have "ticks k s = s\<lparr>timeLeft := Some (int (Suc k) - int k)\<rparr>"
    using assms by (intro ticks_countdown) simp_all
  then have "ticks k s = s\<lparr>timeLeft := Some 1\<rparr>" by simp
  then have "ticks (Suc k) s = intervalFires (s\<lparr>timeLeft := Some 1\<rparr>)"
    by (simp only: ticks_Suc_end)
  also have "\<dots> = clickDeny s"
    using assms
    by (simp add: intervalFires_def clickDeny_def onDeny_def render_def addActionToStream_def)
  finally show ?thesis .
qed

lemma open_gate:
  assumes "requiresConfirmation a" "timeLeft s = None"
  shows "safetyModal (render (processAction env a shot s))
           = Some \<lparr>action = a, screenshot = shot, reasoning = explanationOf a, timeout = 30\<rparr>"
    and "timeLeft (render (processAction env a shot s)) = Some 30"
  using assms by (simp_all add: processAction_def render_def Let_def addActionToStream_def)

lemma ticks_unmounted: "safetyModal s = None \<Longrightarrow> ticks n s = s"
  by (induction n) (simp_all add: intervalFires_def)

lemma processActions_append:
  "processActions env (xs @ ys) shot s = processActions env ys shot (processActions env xs shot s)"
  by (induction xs arbitrary: s) simp_all

lemma processActions_invocations:
  "executorInvocations (processActions env acts shot s) =
     executorInvocations s + length (filter (\<lambda>b. \<not> requiresConfirmation b) acts)"
  by (induction acts arbitrary: s) (simp_all add: processAction_invocations)

lemma processAction_stream:
  "\<exists>rest. actionStream (processAction env a shot s) = actionStream s @ rest"
proof (cases "requiresConfirmation a")
  case True
  then show ?thesis by (simp add: processAction_def Let_def addActionToStream_def)
next
  case False
  let ?l = "addActionToStream \<lparr>entry_type = Action, content = ''Executing: '' @ name a,
              entry_args = Some (args a)\<rparr> s"
  obtain rest where "actionStream (executeAction env a ?l) = actionStream ?l @
     [\<lparr>entry_type = Reasoning, content = getActionReasoning a, entry_args = None\<rparr>] @ rest"
    using executeAction_stream by blast
  with False show ?thesis by (simp add: processAction_def Let_def addActionToStream_def)
qed

lemma processActions_stream:
  "\<exists>rest. actionStream (processActions env acts shot s) = actionStream s @ rest"
proof (induction acts arbitrary: s)
  case Nil
  then show ?case by simp
next
  case (Cons a acts)
  obtain r1 where r1: "actionStream (processAction env a shot s) = actionStream s @ r1"
    using processAction_stream by blast
  obtain r2 where "actionStream (processActions env acts shot (processAction env a shot s))
      = actionStream (processAction env a shot s) @ r2"
    using Cons.IH by blast
  with r1 show ?case by simp
qed

lemma processAction_raises:
  assumes "raises env a = Some e" "\<not> requiresConfirmation a"
  shows "actionStream (processAction env a shot s) = actionStream s @
     [\<lparr>entry_type = Action, content = ''Executing: '' @ name a, entry_args = Some (args a)\<rparr>,
      \<lparr>entry_type = Reasoning, content = getActionReasoning a, entry_args = None\<rparr>,
      \<lparr>entry_type = ErrorEntry,
       content = ''Failed to execute '' @ name a @ '': '' @ error_message e, entry_args = None\<rparr>]"
  using assms(2) executeAction_raises [OF assms(1)]
  by (simp add: processAction_def Let_def addActionToStream_def)

section \<open>Error bounds of the rounding to doubles\<close>

lemma roundHalfEven_error: "\<bar>of_int (roundHalfEven m) - m\<bar> \<le> 1 / 2"
proof -
  have "of_int \<lfloor>m\<rfloor> \<le> m" "m < of_int \<lfloor>m\<rfloor> + 1" by linarith+
  then show ?thesis
    by (auto simp: roundHalfEven_def Let_def abs_le_iff)
qed

lemma expo_lower:
  assumes "0 < q"
  shows "2 powi expo q \<le> q"
proof (cases "1 \<le> q")
  case True
  then have pos: "0 < \<lfloor>q\<rfloor>" by linarith
  have nn: "0 \<le> bitlen \<lfloor>q\<rfloor> - 1"
    using pos bitlen_ge_iff_power [of 1 "\<lfloor>q\<rfloor>"] by simp
  have "(2::int) ^ nat (bitlen \<lfloor>q\<rfloor> - 1) \<le> \<lfloor>q\<rfloor>"
    using bitlen_bounds [OF pos] by simp
  then have "(of_int ((2::int) ^ nat (bitlen \<lfloor>q\<rfloor> - 1)) :: rat) \<le> of_int \<lfloor>q\<rfloor>"
    by (simp only: of_int_le_iff)
  also have "\<dots> \<le> q" by linarith
  finally have "(2::rat) ^ nat (bitlen \<lfloor>q\<rfloor> - 1) \<le> q" by simp
  with True nn show ?thesis by (simp add: expo_def power_int_def)
next
  case False
  then have q1: "q < 1" by simp
  let ?c = "\<lceil>1 / q\<rceil>"
  have "1 < 1 / q" using assms q1 by (simp add: field_simps)
  then have c2: "2 \<le> ?c" by linarith
  then have pos: "0 < ?c - 1" by simp
  let ?n = "bitlen (?c - 1)"
  have nn: "0 \<le> ?n" by (rule bitlen_nonneg)
  have "?c - 1 < 2 ^ nat ?n" using bitlen_bounds [OF pos] by simp
  then have "?c \<le> 2 ^ nat ?n" by simp
  then have "(of_int ?c :: rat) \<le> of_int (2 ^ nat ?n)" by (simp only: of_int_le_iff)
  then have "(of_int ?c :: rat) \<le> 2 ^ nat ?n" by simp
  moreover have "1 / q \<le> of_int ?c" by linarith
  ultimately have "1 / q \<le> 2 ^ nat ?n" by linarith
  then have "1 \<le> 2 ^ nat ?n * q" using assms by (simp add: field_simps)
  then have "1 / 2 ^ nat ?n \<le> q" by (simp add: field_simps)
  moreover have "2 powi expo q = (1 / 2 ^ nat ?n :: rat)"
    using False nn by (auto simp: expo_def power_int_def field_simps)
  ultimately show ?thesis by simp
qed

lemma expo_upper:
  assumes "0 < q"
  shows "q < 2 powi (expo q + 1)"
proof (cases "1 \<le> q")
  case True
  then have pos: "0 < \<lfloor>q\<rfloor>" by linarith
  have nn: "0 \<le> bitlen \<lfloor>q\<rfloor>" by (rule bitlen_nonneg)
  have "\<lfloor>q\<rfloor> + 1 \<le> 2 ^ nat (bitlen \<lfloor>q\<rfloor>)"
    using bitlen_bounds [OF pos] by simp
  then have "(of_int (\<lfloor>q\<rfloor> + 1) :: rat) \<le> of_int (2 ^ nat (bitlen \<lfloor>q\<rfloor>))"
    by (simp only: of_int_le_iff)
  moreover have "q < of_int (\<lfloor>q\<rfloor> + 1)" by simp linarith
  ultimately have "q < 2 ^ nat (bitlen \<lfloor>q\<rfloor>)" by simp
  with True nn show ?thesis by (simp add: expo_def power_int_def)
next
  case False
  then have q1: "q < 1" by simp
  let ?c = "\<lceil>1 / q\<rceil>"
  have "1 < 1 / q" using assms q1 by (simp add: field_simps)
  then have c2: "2 \<le> ?c" by linarith
  then have pos: "0 < ?c - 1" by simp
  let ?n = "bitlen (?c - 1)"
  have n1: "1 \<le> ?n" using pos bitlen_ge_iff_power [of 1 "?c - 1"] by simp
  have "2 ^ nat (?n - 1) \<le> ?c - 1" using bitlen_bounds [OF pos] by simp
  then have "(of_int (2 ^ nat (?n - 1)) :: rat) \<le> of_int (?c - 1)" by (simp only: of_int_le_iff)
  moreover have "of_int (?c - 1) < 1 / q" by simp linarith
  ultimately have "2 ^ nat (?n - 1) < 1 / q" by simp
  then have "2 ^ nat (?n - 1) * q < 1" using assms by (simp add: field_simps)
  then have lt: "q < 1 / 2 ^ nat (?n - 1)" by (simp add: field_simps)
  have "expo q + 1 = - (?n - 1)" using False by (simp add: expo_def)
  then have "2 powi (expo q + 1) = (1 / 2 ^ nat (?n - 1) :: rat)"
    using n1 by (auto simp: power_int_def field_simps)
  with lt show ?thesis by simp
qed

lemma fl_examples:
  "fl (1 / 10) = 3602879701896397 / 36028797018963968
   \<and> fl (565 / 1000) = 1272266894732165 / 2251799813685248
   \<and> fl (1 / 2) = 1 / 2 \<and> fl 1440 = 1440 \<and> fl (- (1 / 10)) = - fl (1 / 10)"
  by code_simp

lemma fl_error:
  assumes "0 \<le> q"
  shows "\<bar>fl q - q\<bar> \<le> q / 2 ^ 53"
proof (cases "q = 0")
  case True
  then show ?thesis by (simp add: fl_def)
next
  case False
  with assms have pos: "0 < q" by simp
  let ?P = "(2::rat) powi (expo q - 52)"
  have P: "0 < ?P" by (simp add: zero_less_power_int)
  have flq: "fl q = of_int (roundHalfEven (q / ?P)) * ?P"
    using pos by (simp add: fl_def)
  have "\<bar>of_int (roundHalfEven (q / ?P)) - q / ?P\<bar> \<le> 1 / 2"
    by (rule roundHalfEven_error)
  then have "\<bar>of_int (roundHalfEven (q / ?P)) - q / ?P\<bar> * ?P \<le> 1 / 2 * ?P"
    using P by (intro mult_right_mono) simp_all
  moreover have "\<bar>of_int (roundHalfEven (q / ?P)) - q / ?P\<bar> * ?P = \<bar>fl q - q\<bar>"
  proof -
    have "\<bar>of_int (roundHalfEven (q / ?P)) - q / ?P\<bar> * ?P
        = \<bar>(of_int (roundHalfEven (q / ?P)) - q / ?P) * ?P\<bar>"
      using P by (simp add: abs_mult)
    also have "(of_int (roundHalfEven (q / ?P)) - q / ?P) * ?P = fl q - q"
      using P by (simp add: flq field_simps)
    finally show ?thesis .
  qed
  ultimately have e1: "\<bar>fl q - q\<bar> \<le> ?P / 2" by simp
  have "?P = 2 powi expo q / 2 ^ 52"
    by (simp add: power_int_diff)
  then have "?P / 2 = 2 powi expo q / 2 ^ 53" by simp
  also have "\<dots> \<le> q / 2 ^ 53"
    using expo_lower [OF pos] by (intro divide_right_mono) simp_all
  finally show ?thesis using e1 by linarith
qed

lemma fl_nonneg:
  assumes "0 \<le> q"
  shows "0 \<le> fl q"
proof -
  have "q / 2 ^ 53 \<le> q" using assms by (simp add: field_simps)
  with fl_error [OF assms] show ?thesis by linarith
qed

lemma scale_error:
  fixes x w :: int
  assumes "0 \<le> x" "x \<le> 999" "0 \<le> w" "w \<le> 2 ^ 31"
  shows "\<bar>fl (fl (of_int x / 1000) * of_int w) - of_int (x * w) / 1000\<bar> < 1 / 1000"
proof -
  let ?a = "of_int x / 1000 :: rat"
  let ?W = "of_int w :: rat"
  have a0: "0 \<le> ?a" using assms(1) by simp
  have a1: "?a \<le> 1" using assms(2) by simp
  have W0: "0 \<le> ?W" using assms(3) by simp
  have "?W \<le> of_int (2 ^ 31)" using assms(4) by (simp only: of_int_le_iff)
  then have W1: "?W \<le> 2 ^ 31" by simp
  have e1: "\<bar>fl ?a - ?a\<bar> \<le> 1 / 2 ^ 53"
  proof -
    have "\<bar>fl ?a - ?a\<bar> \<le> ?a / 2 ^ 53" by (rule fl_error [OF a0])
    also have "\<dots> \<le> 1 / 2 ^ 53" using a1 by (intro divide_right_mono) simp_all
    finally show ?thesis .
  qed
  have f0: "0 \<le> fl ?a" by (rule fl_nonneg [OF a0])
  let ?p = "fl ?a * ?W"
  have p0: "0 \<le> ?p" using f0 W0 by simp
  have e2: "\<bar>?p - ?a * ?W\<bar> \<le> 1 / 2 ^ 22"
  proof -
    have "?p - ?a * ?W = (fl ?a - ?a) * ?W" by (rule left_diff_distrib [symmetric])
    then have "\<bar>?p - ?a * ?W\<bar> = \<bar>fl ?a - ?a\<bar> * \<bar>?W\<bar>" by (simp only: abs_mult)
    also have "\<dots> = \<bar>fl ?a - ?a\<bar> * ?W" using W0 by (simp only: abs_of_nonneg)
    also have "\<dots> \<le> (1 / 2 ^ 53) * 2 ^ 31"
      using e1 W1 W0 by (intro mult_mono) simp_all
    also have "\<dots> = 1 / 2 ^ 22" by simp
    finally show ?thesis .
  qed
  have aW: "?a * ?W \<le> 2 ^ 31"
  proof -
    have "?a * ?W \<le> 1 * 2 ^ 31" using a0 a1 W0 W1 by (intro mult_mono) simp_all
    then show ?thesis by simp
  qed
  have p1: "?p \<le> 2 ^ 32"
  proof -
    from e2 have "?p - ?a * ?W \<le> 1 / 2 ^ 22" by (simp only: abs_le_iff)
    moreover have "(2::rat) ^ 31 + 1 / 2 ^ 22 \<le> 2 ^ 32" by simp
    ultimately show ?thesis using aW by linarith
  qed
  have e3: "\<bar>fl ?p - ?p\<bar> \<le> 1 / 2 ^ 21"
  proof -
    have "\<bar>fl ?p - ?p\<bar> \<le> ?p / 2 ^ 53" by (rule fl_error [OF p0])
    also have "\<dots> \<le> 2 ^ 32 / 2 ^ 53" using p1 by (intro divide_right_mono) simp_all
    also have "\<dots> = 1 / 2 ^ 21" by simp
    finally show ?thesis .
  qed
  have eq: "?a * ?W = of_int (x * w) / 1000" by simp
  have "(1::rat) / 2 ^ 22 + 1 / 2 ^ 21 < 1 / 1000" by simp
  moreover have "\<bar>fl ?p - ?a * ?W\<bar> \<le> \<bar>fl ?p - ?p\<bar> + \<bar>?p - ?a * ?W\<bar>" by linarith
  ultimately have "\<bar>fl ?p - ?a * ?W\<bar> < 1 / 1000" using e2 e3 by linarith
  then show ?thesis by (simp only: eq)
qed

lemma jsRound_near:
  fixes n :: int and v :: rat
  assumes "\<bar>v - of_int n / 1000\<bar> < 1 / 1000"
  shows "\<bar>1000 * jsRound v - n\<bar> \<le> 500
    \<and> (n mod 1000 \<noteq> 500 \<longrightarrow> jsRound v = \<lfloor>of_int n / 1000 + (1 / 2 :: rat)\<rfloor>)"
proof -
  define k where "k = (n + 500) div 1000"
  define m where "m = (n + 500) mod 1000"
  have n: "n = 1000 * k + m - 500" and m: "0 \<le> m" "m < 1000"
    by (simp_all add: k_def m_def)
  have t: "(of_int n :: rat) / 1000 = of_int k + of_int m / 1000 - 1 / 2"
    by (simp add: n diff_divide_distrib add_divide_distrib)
  have fl_t: "\<lfloor>of_int n / 1000 + (1 / 2 :: rat)\<rfloor> = k"
  proof (rule floor_unique)
    have "(0::rat) \<le> of_int m" using m(1) by simp
    then show "of_int k \<le> of_int n / 1000 + (1 / 2 :: rat)" unfolding t by linarith
    have "(of_int m :: rat) < 1000" using m(2) by (metis of_int_less_iff of_int_numeral)
    then show "of_int n / 1000 + (1 / 2 :: rat) < of_int k + 1" unfolding t by linarith
  qed
  have vb: "of_int n / 1000 - 1 / 1000 < v" "v < of_int n / 1000 + 1 / 1000"
    using assms by linarith+
  show ?thesis
  proof (cases "m = 0")
    case True
    then have t': "(of_int n :: rat) / 1000 = of_int k - 1 / 2" by (simp add: t)
    have lo: "of_int (k - 1) \<le> v + 1 / 2" using vb(1) unfolding t' by simp
    have hi: "v + 1 / 2 < of_int (k + 1)" using vb(2) unfolding t' by simp
    have "k - 1 \<le> jsRound v" unfolding jsRound_def using lo by (simp only: le_floor_iff)
    moreover have "jsRound v < k + 1" unfolding jsRound_def using hi by (simp only: floor_less_iff)
    ultimately have two: "jsRound v = k - 1 \<or> jsRound v = k" by linarith
    have "n mod 1000 = 500"
    proof -
      have "n = 500 + (k - 1) * 1000" using n True by simp
      then have "n mod 1000 = (500 + (k - 1) * 1000) mod 1000" by (rule arg_cong)
      also have "\<dots> = 500 mod 1000" by (rule mod_mult_self1)
      finally show ?thesis by simp
    qed
    from two show ?thesis
    proof
      assume "jsRound v = k - 1"
      with n True \<open>n mod 1000 = 500\<close> show ?thesis by simp
    next
      assume "jsRound v = k"
      with n True \<open>n mod 1000 = 500\<close> show ?thesis by simp
    qed
  next
    case False
    then have m1: "1 \<le> m" "m \<le> 999" using m by simp_all
    have mr: "(1::rat) \<le> of_int m" "(of_int m :: rat) \<le> 999"
      using m1 by (metis of_int_1 of_int_le_iff, metis of_int_le_iff of_int_numeral)
    have lo: "of_int k \<le> v + 1 / 2" using vb(1) mr(1) unfolding t by linarith
    have hi: "v + 1 / 2 < of_int k + 1" using vb(2) mr(2) unfolding t by linarith
    have "jsRound v = k" unfolding jsRound_def using lo hi by (rule floor_unique)
    then show ?thesis using fl_t n m1 by simp
  qed
qed

lemma denormalize_axis:
  fixes x w :: int
  assumes "0 \<le> x" "x \<le> 999" "0 \<le> w" "w \<le> 2 ^ 31"
  shows "\<bar>1000 * jsRound (fl (fl (of_int x / 1000) * of_int w)) - x * w\<bar> \<le> 500
    \<and> (x * w mod 1000 \<noteq> 500 \<longrightarrow>
         jsRound (fl (fl (of_int x / 1000) * of_int w)) = exactRound x w)"
proof -
  have "exactRound x w = \<lfloor>of_int (x * w) / 1000 + (1 / 2 :: rat)\<rfloor>"
    by (simp add: exactRound_def)
  then show ?thesis
    using jsRound_near [OF scale_error [OF assms]] by simp
qed

section \<open>The claims\<close>

text \<open>
  C1. A descriptor whose decision is \<open>blocked\<close> should never reach the executor. The
  dashboard tests the decision for \<open>require_confirmation\<close> only, so a blocked descriptor
  takes the direct path: here a blocked \<open>click_at\<close> is logged as an action, the executor
  runs (one \<open>reasoning\<close> entry) and the click is sent to the remote session.
\<close>

theorem blocked_click_reaches_executor:
  "processAction quiet
      \<lparr>name = ''click_at'', args = [(''x'', JNumber 100), (''y'', JNumber 200)],
       safetyDecision = Some \<lparr>explanation = ''not permitted'', decision = Blocked\<rparr>\<rparr>
      None initial
   = initial
      \<lparr>actionStream :=
         [\<lparr>entry_type = Action, content = ''Executing: click_at'',
           entry_args = Some [(''x'', JNumber 100), (''y'', JNumber 200)]\<rparr>,
          \<lparr>entry_type = Reasoning,
           content = ''I need to click at position (100, 200) to interact with the UI element'',
           entry_args = None\<rparr>],
       vncCalls := [sendMouseEvent (JNumber 100) (JNumber 200) 1],
       captureTimers := 1\<rparr>"
  by code_simp




text \<open>
  C3, as the code has it. An emergency stop whose \<open>disconnect\<close> does not raise empties the
  modal slot without running either callback (the held action is not executed and no
  denial is logged), unmounts the modal at the next render, disconnects the remote
  session, sets the session's status to \<open>stopped\<close>, appends the \<open>error\<close> entry
  \<open>Emergency stop activated by user\<close>, and leaves the task queue as it was: no task's
  status changes.
\<close>

theorem emergencyStop_effect:
  assumes "throws env disconnect = None"
  shows "safetyModal (emergencyStop env s) = None
    \<and> timeLeft (render (emergencyStop env s)) = None
    \<and> taskQueue (emergencyStop env s) = taskQueue s
    \<and> currentSession (emergencyStop env s)
        = map_option (\<lambda>c. c\<lparr>session_status := Stopped\<rparr>) (currentSession s)
    \<and> actionStream (emergencyStop env s) = actionStream s @
         [\<lparr>entry_type = ErrorEntry, content = ''Emergency stop activated by user'',
           entry_args = None\<rparr>]
    \<and> vncCalls (emergencyStop env s) = vncCalls s @ [disconnect]
    \<and> executorInvocations (emergencyStop env s) = executorInvocations s"
  using assms
  by (simp add: emergencyStop_def Let_def addActionToStream_def render_def executorInvocations_def)

text \<open>
  C3 as stated fails: with a request pending and a task in progress, the emergency stop
  leaves that task \<open>in_progress\<close> (none becomes \<open>cancelled\<close>); when the model then answers,
  the task's action is still passed to the executor and the task ends \<open>completed\<close>.
\<close>

theorem emergency_stop_not_cancelled_counterexample:
  "safetyModal awaitingModel
     = Some \<lparr>action = rcClick, screenshot = None, reasoning = ''submits a form'', timeout = 30\<rparr>
   \<and> map status (taskQueue awaitingModel) = [Completed, InProgress]
   \<and> map status (taskQueue (emergencyStop quiet awaitingModel)) = [Completed, InProgress]
   \<and> map entry_type (actionStream (emergencyStop quiet awaitingModel))
       = [Observation, SafetyCheck, Observation, ErrorEntry]
   \<and> content (last (actionStream (emergencyStop quiet awaitingModel)))
       = ''Emergency stop activated by user''
   \<and> map status (taskQueue (taskResponse quiet 4 None (Inr [okClick]) 5
         (emergencyStop quiet awaitingModel))) = [Completed, Completed]
   \<and> vncCalls (taskResponse quiet 4 None (Inr [okClick]) 5 (emergencyStop quiet awaitingModel))
       = [connect, disconnect, sendMouseEvent (JNumber 5) (JNumber 6) 1]"
  by code_simp

text \<open>
  The theorem for C3 at that state.
\<close>

theorem emergencyStop_effect_witness:
  "throws quiet disconnect = None
   \<and> safetyModal awaitingModel \<noteq> None
   \<and> safetyModal (emergencyStop quiet awaitingModel) = None
   \<and> taskQueue (emergencyStop quiet awaitingModel) = taskQueue awaitingModel
   \<and> map status (taskQueue awaitingModel) = [Completed, InProgress]"
proof -
  have h: "throws quiet disconnect = None" by (simp add: quiet_def)
  have p: "safetyModal awaitingModel \<noteq> None" by code_simp
  have q: "map status (taskQueue awaitingModel) = [Completed, InProgress]" by code_simp
  show ?thesis using h p q emergencyStop_effect [OF h, of awaitingModel] by simp
qed

text \<open>
  C4, as the code has it. When the execution of an action raises, the executor appends,
  after its \<open>reasoning\<close> entry, the \<open>error\<close> entry \<open>Failed to execute <name>: <message>\<close> and
  returns normally. In a batch the task runner goes on: the descriptors after the raising
  one are processed from the state it left, the \<open>error\<close> entry of a directly executed
  descriptor is in the log at the end, the executor has been invoked once for every
  descriptor of the whole batch that needs no confirmation, and the task is marked
  \<open>completed\<close>. A task is marked \<open>failed\<close> when the request to the model is rejected.
\<close>

theorem executor_error_logged_task_completed:
  assumes "currentSession s = Some sess" "raises env a = Some e"
  shows "actionStream (executeAction env a s') = actionStream s' @
     [\<lparr>entry_type = Reasoning, content = getActionReasoning a, entry_args = None\<rparr>,
      \<lparr>entry_type = ErrorEntry,
       content = ''Failed to execute '' @ name a @ '': '' @ error_message e, entry_args = None\<rparr>]
   \<and> handleTaskSubmit env now d (Inr (pre @ a # post)) doneAt s
       = markCompleted now doneAt
           (processActions env post (orUndefined (takeCapture env s))
              (processAction env a (orUndefined (takeCapture env s))
                 (processActions env pre (orUndefined (takeCapture env s))
                    (submitTask env now d s))))
   \<and> (\<not> requiresConfirmation a \<longrightarrow>
        \<lparr>entry_type = ErrorEntry,
         content = ''Failed to execute '' @ name a @ '': '' @ error_message e, entry_args = None\<rparr>
          \<in> set (actionStream (handleTaskSubmit env now d (Inr (pre @ a # post)) doneAt s)))
   \<and> executorInvocations (handleTaskSubmit env now d (Inr (pre @ a # post)) doneAt s)
       = executorInvocations s
         + length (filter (\<lambda>b. \<not> requiresConfirmation b) (pre @ a # post))
   \<and> status (last (taskQueue (handleTaskSubmit env now d (Inr (pre @ a # post)) doneAt s))) = Completed
   \<and> status (last (taskQueue (handleTaskSubmit env now d (Inl e') doneAt s))) = Failed"
proof -
  let ?shot = "orUndefined (takeCapture env s)"
  let ?s0 = "submitTask env now d s"
  let ?s1 = "processActions env pre ?shot ?s0"
  let ?s2 = "processAction env a ?shot ?s1"
  let ?s3 = "processActions env post ?shot ?s2"
  let ?h = "handleTaskSubmit env now d (Inr (pre @ a # post)) doneAt s"
  let ?err = "\<lparr>entry_type = ErrorEntry,
         content = ''Failed to execute '' @ name a @ '': '' @ error_message e, entry_args = None\<rparr>"
  have run: "?h = markCompleted now doneAt ?s3"
    using assms(1) by (simp add: handleTaskSubmit_def taskResponse_def processActions_append)
  have logged: "?err \<in> set (actionStream ?h)" if "\<not> requiresConfirmation a"
  proof -
    have "?err \<in> set (actionStream ?s2)"
      using processAction_raises [OF assms(2) that, of ?shot ?s1] by simp
    moreover obtain rest where "actionStream ?s3 = actionStream ?s2 @ rest"
      using processActions_stream by blast
    ultimately have "?err \<in> set (actionStream ?s3)" by simp
    then show ?thesis by (simp add: run markCompleted_def)
  qed
  have inv0: "executorInvocations ?s0 = executorInvocations s"
    using assms(1) by (simp add: submitTask_def Let_def addActionToStream_def executorInvocations_def)
  have "executorInvocations ?h
      = executorInvocations (processActions env (pre @ a # post) ?shot ?s0)"
    using assms(1)
    by (simp add: handleTaskSubmit_def taskResponse_def markCompleted_def executorInvocations_def)
  then have inv: "executorInvocations ?h = executorInvocations s
         + length (filter (\<lambda>b. \<not> requiresConfirmation b) (pre @ a # post))"
    by (simp only: processActions_invocations inv0)
  show ?thesis
    using executeAction_raises [OF assms(2), of s'] run logged inv
      handleTaskSubmit_completed [OF assms(1), of env now d "pre @ a # post" doneAt]
      handleTaskSubmit_failed [OF assms(1), of env now d e' doneAt]
    by blast
qed

text \<open>
  C4 as stated fails: with a remote session that raises on every call, a task of two
  clicks logs both failures, the second after the first, and ends \<open>completed\<close>, not
  \<open>failed\<close>.
\<close>

theorem transport_error_task_completed_counterexample:
  "map status (taskQueue (handleTaskSubmit
       (quiet\<lparr>throws := (\<lambda>c. Some (Error ''Error'' ''connection lost''))\<rparr>)
       2 ''press the button'' (Inr [okClick, okClick]) 3 (startSession 1 initial))) = [Completed]
   \<and> Failed \<notin> set (map status (taskQueue (handleTaskSubmit
       (quiet\<lparr>throws := (\<lambda>c. Some (Error ''Error'' ''connection lost''))\<rparr>)
       2 ''press the button'' (Inr [okClick, okClick]) 3 (startSession 1 initial))))
   \<and> map entry_type (actionStream (handleTaskSubmit
       (quiet\<lparr>throws := (\<lambda>c. Some (Error ''Error'' ''connection lost''))\<rparr>)
       2 ''press the button'' (Inr [okClick, okClick]) 3 (startSession 1 initial)))
     = [Observation, Action, Reasoning, ErrorEntry, Action, Reasoning, ErrorEntry]
   \<and> content (last (actionStream (handleTaskSubmit
       (quiet\<lparr>throws := (\<lambda>c. Some (Error ''Error'' ''connection lost''))\<rparr>)
       2 ''press the button'' (Inr [okClick, okClick]) 3 (startSession 1 initial))))
     = ''Failed to execute click_at: connection lost''"
  by code_simp

text \<open>
  The theorem for C4 at a concrete batch.
\<close>

theorem executor_error_logged_task_completed_witness:
  "raises (quiet\<lparr>throws := (\<lambda>c. Some (Error ''Error'' ''connection lost''))\<rparr>) okClick
     = Some (Error ''Error'' ''connection lost'')
   \<and> executorInvocations (handleTaskSubmit
       (quiet\<lparr>throws := (\<lambda>c. Some (Error ''Error'' ''connection lost''))\<rparr>)
       2 ''press the button'' (Inr [rcClick, okClick, okClick]) 3 (startSession 1 initial)) = 2
   \<and> status (last (taskQueue (handleTaskSubmit
       (quiet\<lparr>throws := (\<lambda>c. Some (Error ''Error'' ''connection lost''))\<rparr>)
       2 ''press the button'' (Inr [rcClick, okClick, okClick]) 3 (startSession 1 initial)))) = Completed
   \<and> status (last (taskQueue (handleTaskSubmit
       (quiet\<lparr>throws := (\<lambda>c. Some (Error ''Error'' ''connection lost''))\<rparr>)
       2 ''press the button'' (Inl (Error ''Error'' ''quota'')) 3 (startSession 1 initial)))) = Failed"
proof -
  let ?env = "quiet\<lparr>throws := (\<lambda>c. Some (Error ''Error'' ''connection lost''))\<rparr>"
  have h1: "currentSession (startSession 1 initial) = Some \<lparr>session_id = 1, session_status = Idle\<rparr>"
    by (simp add: startSession_def initial_def)
  have h2: "raises ?env okClick = Some (Error ''Error'' ''connection lost'')"
    by code_simp
  have e0: "executorInvocations (startSession 1 initial) = 0"
    by (simp add: startSession_def initial_def executorInvocations_def)
  have n: "length (filter (\<lambda>b. \<not> requiresConfirmation b) ([rcClick] @ okClick # [okClick])) = 2"
    by code_simp
  note t = executor_error_logged_task_completed [OF h1 h2, of _ 2 "''press the button''" "[rcClick]" "[okClick]" 3 "Error ''Error'' ''quota''"]
  from t have inv: "executorInvocations (handleTaskSubmit ?env 2 ''press the button''
      (Inr ([rcClick] @ okClick # [okClick])) 3 (startSession 1 initial))
      = executorInvocations (startSession 1 initial)
        + length (filter (\<lambda>b. \<not> requiresConfirmation b) ([rcClick] @ okClick # [okClick]))"
    by blast
  have c: "executorInvocations (handleTaskSubmit ?env 2 ''press the button''
      (Inr [rcClick, okClick, okClick]) 3 (startSession 1 initial)) = 2"
    using inv e0 n by simp
  from t have d0: "status (last (taskQueue (handleTaskSubmit ?env 2 ''press the button''
      (Inr ([rcClick] @ okClick # [okClick])) 3 (startSession 1 initial)))) = Completed
    \<and> status (last (taskQueue (handleTaskSubmit ?env 2 ''press the button''
      (Inl (Error ''Error'' ''quota'')) 3 (startSession 1 initial)))) = Failed"
    by blast
  then have d: "status (last (taskQueue (handleTaskSubmit ?env 2 ''press the button''
      (Inr [rcClick, okClick, okClick]) 3 (startSession 1 initial)))) = Completed
    \<and> status (last (taskQueue (handleTaskSubmit ?env 2 ''press the button''
      (Inl (Error ''Error'' ''quota'')) 3 (startSession 1 initial)))) = Failed"
    by simp
  show ?thesis using h2 c d by blast
qed

text \<open>
  C5, as the code has it. The dashboard has one slot for a request, so at most one is
  pending. Opening never fails: processing a \<open>require_confirmation\<close> descriptor puts its
  request (timeout 30) into the slot whatever the slot held, appends one \<open>safety_check\<close>
  entry and nothing else, and makes no call on the remote session; a request that was
  pending is replaced without either of its callbacks being run.
\<close>

theorem open_gate_replaces_pending:
  assumes "requiresConfirmation a"
  shows "safetyModal (processAction env a shot s)
           = Some \<lparr>action = a, screenshot = shot, reasoning = explanationOf a, timeout = 30\<rparr>
    \<and> card (set_option (safetyModal (processAction env a shot s))) = 1
    \<and> actionStream (processAction env a shot s) = actionStream s @
         [\<lparr>entry_type = SafetyCheck, content = ''Executing: '' @ name a, entry_args = Some (args a)\<rparr>]
    \<and> vncCalls (processAction env a shot s) = vncCalls s
    \<and> taskQueue (processAction env a shot s) = taskQueue s"
  using assms by (simp add: processAction_def Let_def addActionToStream_def)

text \<open>
  C5 as stated fails: ten seconds into a pending request, a second request takes the slot;
  the first is gone, with no denial logged and nothing executed.
\<close>

theorem second_request_replaces_first_counterexample:
  "safetyModal (ticks 10 (render (processAction quiet rcClick None initial)))
     = Some \<lparr>action = rcClick, screenshot = None, reasoning = ''submits a form'', timeout = 30\<rparr>
   \<and> safetyModal (render (processAction quiet rcDelete None
        (ticks 10 (render (processAction quiet rcClick None initial)))))
     = Some \<lparr>action = rcDelete, screenshot = None, reasoning = ''confirms a deletion'', timeout = 30\<rparr>
   \<and> map entry_type (actionStream (render (processAction quiet rcDelete None
        (ticks 10 (render (processAction quiet rcClick None initial))))))
     = [SafetyCheck, SafetyCheck]
   \<and> vncCalls (render (processAction quiet rcDelete None
        (ticks 10 (render (processAction quiet rcClick None initial))))) = []"
  by code_simp

text \<open>
  The theorem for C5 at a state with a request pending.
\<close>

theorem open_gate_replaces_pending_witness:
  "requiresConfirmation rcDelete
   \<and> safetyModal (processAction quiet rcClick None initial) \<noteq> None
   \<and> safetyModal (processAction quiet rcDelete None (processAction quiet rcClick None initial))
       = Some \<lparr>action = rcDelete, screenshot = None, reasoning = explanationOf rcDelete, timeout = 30\<rparr>
   \<and> vncCalls (processAction quiet rcDelete None (processAction quiet rcClick None initial)) = []"
proof -
  have h: "requiresConfirmation rcDelete" by code_simp
  have p: "safetyModal (processAction quiet rcClick None initial) \<noteq> None" by code_simp
  have v: "vncCalls (processAction quiet rcClick None initial) = []" by code_simp
  show ?thesis
    using h p v open_gate_replaces_pending [OF h, of quiet None "processAction quiet rcClick None initial"]
    by simp
qed

text \<open>
  C6, as the code has it. A request opened by the task runner (timeout 30) while no modal
  is mounted, and followed by nothing but firings of the one-second interval (no click, no
  stop, no further request): at each of the first 29 firings, and before the first, the
  request is still pending, the countdown stands at 30 minus the number of firings and
  nothing has been logged; the 30th firing denies it. The state after the automatic
  denial is the state an explicit Deny produces, at whatever moment of the countdown the
  button is pressed: the same \<open>error\<close> entry, the slot emptied, the modal unmounted, the
  held action not executed.
\<close>

theorem countdown_auto_deny_at_30:
  assumes "requiresConfirmation a" "timeLeft s = None"
  shows "(\<forall>k < 30. safetyModal (ticks k (render (processAction env a shot s)))
                     = Some \<lparr>action = a, screenshot = shot, reasoning = explanationOf a, timeout = 30\<rparr>
                 \<and> timeLeft (ticks k (render (processAction env a shot s))) = Some (30 - int k)
                 \<and> actionStream (ticks k (render (processAction env a shot s)))
                     = actionStream (processAction env a shot s)
                 \<and> clickDeny (ticks k (render (processAction env a shot s)))
                     = ticks 30 (render (processAction env a shot s)))
    \<and> ticks 30 (render (processAction env a shot s)) = clickDeny (render (processAction env a shot s))
    \<and> safetyModal (ticks 30 (render (processAction env a shot s))) = None
    \<and> timeLeft (ticks 30 (render (processAction env a shot s))) = None
    \<and> actionStream (ticks 30 (render (processAction env a shot s)))
        = actionStream (processAction env a shot s) @
          [\<lparr>entry_type = ErrorEntry, content = ''Action denied by user: '' @ name a,
            entry_args = None\<rparr>]
    \<and> executorInvocations (ticks 30 (render (processAction env a shot s))) = executorInvocations s"
proof -
  let ?g = "render (processAction env a shot s)"
  let ?m = "\<lparr>action = a, screenshot = shot, reasoning = explanationOf a, timeout = 30\<rparr>"
  have g: "safetyModal ?g = Some ?m" "timeLeft ?g = Some 30"
    using open_gate [OF assms(1) assms(2)] by simp_all
  have gs: "actionStream ?g = actionStream (processAction env a shot s)"
    using g by (simp add: render_def split: option.splits)
  have before: "ticks k ?g = ?g\<lparr>timeLeft := Some (30 - int k)\<rparr>" if "k < 30" for k
    using g that by (intro ticks_countdown [of _ ?m]) simp_all
  have "ticks (Suc 29) ?g = clickDeny ?g"
    using g by (intro ticks_expiry [of _ ?m]) simp_all
  then have at: "ticks 30 ?g = clickDeny ?g" by simp
  have deny: "clickDeny ?g = (onDeny ?m ?g)\<lparr>timeLeft := None\<rparr>"
    using g by (simp add: clickDeny_def render_def onDeny_def addActionToStream_def)
  have inv: "executorInvocations (processAction env a shot s) = executorInvocations s"
    using assms(1) by (simp add: processAction_invocations)
  have inv': "executorInvocations (clickDeny ?g) = executorInvocations s"
    using inv gs deny
    by (simp add: onDeny_def addActionToStream_def executorInvocations_def)
  have early: "clickDeny (ticks k ?g) = clickDeny ?g" if "k < 30" for k
    using before [OF that] g
    by (simp add: clickDeny_def render_def onDeny_def addActionToStream_def)
  have pending: "safetyModal (ticks k ?g) = Some ?m
      \<and> timeLeft (ticks k ?g) = Some (30 - int k)
      \<and> actionStream (ticks k ?g) = actionStream (processAction env a shot s)
      \<and> clickDeny (ticks k ?g) = ticks 30 ?g" if "k < 30" for k
    using before [OF that] early [OF that] g gs at by simp
  have final: "safetyModal (clickDeny ?g) = None \<and> timeLeft (clickDeny ?g) = None
      \<and> actionStream (clickDeny ?g) = actionStream (processAction env a shot s) @
          [\<lparr>entry_type = ErrorEntry, content = ''Action denied by user: '' @ name a,
            entry_args = None\<rparr>]"
    using gs by (simp add: deny onDeny_def addActionToStream_def)
  show ?thesis
    using pending final inv' by (simp add: at)
qed

text \<open>
  C6 as stated fails. A request that takes the slot ten firings into the countdown of
  another is opened with timeout 30 and is denied 20 firings later, not 30; the request it
  replaced is never denied. The same holds within one batch of two \<open>require_confirmation\<close>
  descriptors: the only denial ever logged is the second descriptor's.
\<close>

theorem replacing_request_denied_early_counterexample:
  "timeLeft (render (processAction quiet rcDelete None
        (ticks 10 (render (processAction quiet rcClick None initial))))) = Some 20
   \<and> safetyModal (ticks 19 (render (processAction quiet rcDelete None
        (ticks 10 (render (processAction quiet rcClick None initial))))))
       = Some \<lparr>action = rcDelete, screenshot = None, reasoning = ''confirms a deletion'', timeout = 30\<rparr>
   \<and> safetyModal (ticks 20 (render (processAction quiet rcDelete None
        (ticks 10 (render (processAction quiet rcClick None initial)))))) = None
   \<and> map content (filter (\<lambda>e. entry_type e = ErrorEntry)
        (actionStream (ticks 60 (render (processAction quiet rcDelete None
          (ticks 10 (render (processAction quiet rcClick None initial))))))))
       = [''Action denied by user: key_combination'']
   \<and> safetyModal (ticks 60 (render (processActions quiet [rcClick, rcDelete] None initial)))
       = None
   \<and> map content (filter (\<lambda>e. entry_type e = ErrorEntry)
        (actionStream (ticks 60 (render (processActions quiet [rcClick, rcDelete] None initial)))))
       = [''Action denied by user: key_combination'']"
  by code_simp

text \<open>
  The theorem for C6 at a concrete request.
\<close>

theorem countdown_auto_deny_at_30_witness:
  "requiresConfirmation rcClick
   \<and> timeLeft (startSession 1 initial) = None
   \<and> safetyModal (ticks 29 (render (processAction quiet rcClick None (startSession 1 initial))))
       = Some \<lparr>action = rcClick, screenshot = None, reasoning = explanationOf rcClick, timeout = 30\<rparr>
   \<and> timeLeft (ticks 29 (render (processAction quiet rcClick None (startSession 1 initial)))) = Some 1
   \<and> safetyModal (ticks 30 (render (processAction quiet rcClick None (startSession 1 initial)))) = None
   \<and> ticks 30 (render (processAction quiet rcClick None (startSession 1 initial)))
       = clickDeny (render (processAction quiet rcClick None (startSession 1 initial)))"
proof -
  have h1: "requiresConfirmation rcClick" by code_simp
  have h3: "timeLeft (startSession 1 initial) = None" by (simp add: startSession_def initial_def)
  note t = countdown_auto_deny_at_30 [OF h1 h3, of quiet None]
  from t have b: "\<forall>k<30. safetyModal (ticks k (render (processAction quiet rcClick None (startSession 1 initial))))
                     = Some \<lparr>action = rcClick, screenshot = None, reasoning = explanationOf rcClick, timeout = 30\<rparr>
                 \<and> timeLeft (ticks k (render (processAction quiet rcClick None (startSession 1 initial)))) = Some (30 - int k)"
    by blast
  have "(29::nat) < 30" by simp
  with b have b29: "safetyModal (ticks 29 (render (processAction quiet rcClick None (startSession 1 initial))))
                     = Some \<lparr>action = rcClick, screenshot = None, reasoning = explanationOf rcClick, timeout = 30\<rparr>
                 \<and> timeLeft (ticks 29 (render (processAction quiet rcClick None (startSession 1 initial)))) = Some (30 - int 29)"
    by blast
  then have b29': "safetyModal (ticks 29 (render (processAction quiet rcClick None (startSession 1 initial))))
                     = Some \<lparr>action = rcClick, screenshot = None, reasoning = explanationOf rcClick, timeout = 30\<rparr>
                 \<and> timeLeft (ticks 29 (render (processAction quiet rcClick None (startSession 1 initial)))) = Some 1"
    by simp
  from t have c: "safetyModal (ticks 30 (render (processAction quiet rcClick None (startSession 1 initial)))) = None
     \<and> ticks 30 (render (processAction quiet rcClick None (startSession 1 initial)))
       = clickDeny (render (processAction quiet rcClick None (startSession 1 initial)))"
    by blast
  show ?thesis using h1 h3 b29' c by blast
qed

text \<open>
  C7. The risk classifier is a function of the action descriptor alone: it lower-cases the
  action name joined to the serialization of the arguments and answers \<open>high\<close> exactly when
  that string contains a member of the fixed keyword list (which holds \<open>delete\<close>, \<open>format\<close>,
  \<open>shutdown\<close>, \<open>transfer\<close> and \<open>payment\<close>), and \<open>medium\<close> otherwise. Its answer gates nothing:
  whatever it is, processing a descriptor invokes the executor exactly when the model's
  decision is not \<open>require_confirmation\<close>.
\<close>

theorem getRiskLevel_keyword_scan:
  "getRiskLevel stringify a =
     (if \<exists>k \<in> set highRiskActions. \<exists>p q.
           toLowerCase (name a @ '' '' @ stringify (args a)) = p @ k @ q
      then ''high'' else ''medium'')
   \<and> set [''delete'', ''format'', ''shutdown'', ''transfer'', ''payment''] \<subseteq> set highRiskActions
   \<and> executorInvocations (processAction env a shot s) =
       (if requiresConfirmation a then executorInvocations s else Suc (executorInvocations s))"
proof -
  have scan: "getRiskLevel stringify a =
     (if \<exists>k \<in> set highRiskActions. \<exists>p q.
           toLowerCase (name a @ '' '' @ stringify (args a)) = p @ k @ q
      then ''high'' else ''medium'')"
    unfolding getRiskLevel_def Let_def list_ex_iff includesStr_iff by simp
  have members: "set [''delete'', ''format'', ''shutdown'', ''transfer'', ''payment''] \<subseteq> set highRiskActions"
    by (simp add: highRiskActions_def)
  show ?thesis
    using scan members processAction_invocations by blast
qed

theorem getRiskLevel_keyword_scan_witness:
  "getRiskLevel (\<lambda>xs. concat (map (\<lambda>(k, v). k @ '':'' @ toStr v) xs))
      \<lparr>name = ''click_at'', args = [(''target'', JString ''DELETE all'')], safetyDecision = None\<rparr>
     = ''high''
   \<and> getRiskLevel (\<lambda>xs. concat (map (\<lambda>(k, v). k @ '':'' @ toStr v) xs))
      \<lparr>name = ''click_at'', args = [(''x'', JNumber 5)], safetyDecision = None\<rparr>
     = ''medium''
   \<and> executorInvocations
       (processAction quiet
          \<lparr>name = ''click_at'', args = [(''target'', JString ''DELETE all'')], safetyDecision = None\<rparr>
          None initial) = 1"
proof -
  let ?str = "\<lambda>xs. concat (map (\<lambda>(k, v). k @ '':'' @ toStr v) xs)"
  let ?a = "\<lparr>name = ''click_at'', args = [(''target'', JString ''DELETE all'')], safetyDecision = None\<rparr>"
  let ?b = "\<lparr>name = ''click_at'', args = [(''x'', JNumber 5)], safetyDecision = None\<rparr>"
  have low: "toLowerCase (name ?a @ '' '' @ ?str (args ?a)) = ''click_at target:'' @ ''delete'' @ '' all''"
    by code_simp
  have "''delete'' \<in> set highRiskActions" by (simp add: highRiskActions_def)
  with low have ex: "\<exists>k \<in> set highRiskActions. \<exists>p q.
      toLowerCase (name ?a @ '' '' @ ?str (args ?a)) = p @ k @ q" by blast
  have high: "getRiskLevel ?str ?a = ''high''"
    using getRiskLevel_keyword_scan [of ?str ?a] ex by presburger
  have med: "getRiskLevel ?str ?b = ''medium''" by code_simp
  have rc: "\<not> requiresConfirmation ?a" by (simp add: requiresConfirmation_def)
  have e0: "executorInvocations initial = 0" by (simp add: executorInvocations_def initial_def)
  have inv: "executorInvocations (processAction quiet ?a None initial) = 1"
    using getRiskLevel_keyword_scan [of ?str ?a quiet None initial] rc e0 by simp
  show ?thesis using high med inv by blast
qed

text \<open>
  C8, as the code has it. For integer normalized coordinates \<open>(x, y)\<close> in \<open>[0,999]\<close> squared and
  integer surface dimensions \<open>W\<close>, \<open>H\<close> from 0 to \<open>2 ^ 31\<close>, each component of the result is an
  integer within half a pixel of the exact \<open>x/1000*W\<close> (of \<open>y/1000*H\<close>). It is
  \<open>round(x/1000*W)\<close> whenever the exact value is not halfway between two integers, that is
  whenever \<open>x * W mod 1000\<close> is not 500. In particular \<open>(500, 500)\<close> on a 1440 by 900 surface
  yields \<open>(720, 450)\<close>.
\<close>

theorem denormalize_nearest_pixel:
  assumes "0 \<le> x" "x \<le> 999" "0 \<le> y" "y \<le> 999"
    and "0 \<le> W" "W \<le> 2 ^ 31" "0 \<le> H" "H \<le> 2 ^ 31"
  shows "\<bar>1000 * fst (denormalizeCoordinates x y W H) - x * W\<bar> \<le> 500
    \<and> (x * W mod 1000 \<noteq> 500 \<longrightarrow> fst (denormalizeCoordinates x y W H) = exactRound x W)
    \<and> \<bar>1000 * snd (denormalizeCoordinates x y W H) - y * H\<bar> \<le> 500
    \<and> (y * H mod 1000 \<noteq> 500 \<longrightarrow> snd (denormalizeCoordinates x y W H) = exactRound y H)
    \<and> denormalizeCoordinates 500 500 1440 900 = (720, 450)"
proof -
  have ex: "denormalizeCoordinates 500 500 1440 900 = (720, 450)" by code_simp
  show ?thesis
    using denormalize_axis [OF assms(1,2,5,6)] denormalize_axis [OF assms(3,4,7,8)] ex
    by (simp add: denormalizeCoordinates_def)
qed

text \<open>
  C8 as stated fails on a tie. On a 1440 by 900 surface \<open>y = 565\<close> stands for the exact
  508.5; the double nearest to 0.565 lies below it, the product is rounded to a double
  below 508.5, and the result is 508 where the formula gives 509. Likewise \<open>(145, 700)\<close> on
  100 by 45 gives \<open>(14, 31)\<close> for the exact 14.5 and 31.5.
\<close>

theorem denormalize_tie_rounds_down_counterexample:
  "denormalizeCoordinates 500 565 1440 900 = (720, 508)
   \<and> (exactRound 500 1440, exactRound 565 900) = (720, 509)
   \<and> denormalizeCoordinates 145 700 100 45 = (14, 31)
   \<and> (exactRound 145 100, exactRound 700 45) = (15, 32)"
  by code_simp

text \<open>
  The theorem for C8 at a point of a 1440 by 900 surface, one component off a tie and one
  on it.
\<close>

theorem denormalize_nearest_pixel_witness:
  "(0::int) \<le> 250 \<and> (250::int) \<le> 999 \<and> (0::int) \<le> 565 \<and> (565::int) \<le> 999
   \<and> (0::int) \<le> 1440 \<and> (1440::int) \<le> 2 ^ 31 \<and> (0::int) \<le> 900 \<and> (900::int) \<le> 2 ^ 31
   \<and> fst (denormalizeCoordinates 250 565 1440 900) = 360
   \<and> \<bar>1000 * snd (denormalizeCoordinates 250 565 1440 900) - 565 * 900\<bar> \<le> 500"
proof -
  have h: "(0::int) \<le> 250" "(250::int) \<le> 999" "(0::int) \<le> 565" "(565::int) \<le> 999"
    "(0::int) \<le> 1440" "(1440::int) \<le> 2 ^ 31" "(0::int) \<le> 900" "(900::int) \<le> 2 ^ 31"
    by simp_all
  note t = denormalize_nearest_pixel [OF h]
  have nt: "(250::int) * 1440 mod 1000 \<noteq> 500" by simp
  have er: "exactRound 250 1440 = 360" by code_simp
  from t nt have "fst (denormalizeCoordinates 250 565 1440 900) = exactRound 250 1440" by blast
  with er have a: "fst (denormalizeCoordinates 250 565 1440 900) = 360" by simp
  from t have b: "\<bar>1000 * snd (denormalizeCoordinates 250 565 1440 900) - 565 * 900\<bar> \<le> 500"
    by blast
  show ?thesis using h a b by blast
qed

text \<open>
  C9. With a session active and an empty list of actions as the model's response, the
  task ends at once as \<open>completed\<close>: the task appended to the queue has that status, the
  only entry logged is the observation of the task, the executor is not invoked and no
  call is made on the remote session.
\<close>

theorem empty_response_completes:
  assumes "currentSession s = Some sess"
  shows "status (last (taskQueue (handleTaskSubmit env now d (Inr []) doneAt s))) = Completed
    \<and> task_id (last (taskQueue (handleTaskSubmit env now d (Inr []) doneAt s))) = now
    \<and> description (last (taskQueue (handleTaskSubmit env now d (Inr []) doneAt s))) = d
    \<and> length (taskQueue (handleTaskSubmit env now d (Inr []) doneAt s)) = Suc (length (taskQueue s))
    \<and> actionStream (handleTaskSubmit env now d (Inr []) doneAt s) = actionStream s @
         [\<lparr>entry_type = Observation,
           content = ''Received task: '' @ [CHR 0x22] @ d @ [CHR 0x22], entry_args = None\<rparr>]
    \<and> executorInvocations (handleTaskSubmit env now d (Inr []) doneAt s) = executorInvocations s
    \<and> vncCalls (handleTaskSubmit env now d (Inr []) doneAt s) = vncCalls s
    \<and> safetyModal (handleTaskSubmit env now d (Inr []) doneAt s) = safetyModal s"
  using assms
  by (simp add: handleTaskSubmit_def taskResponse_def submitTask_def markCompleted_def
      addActionToStream_def executorInvocations_def Let_def)

theorem empty_response_completes_witness:
  "currentSession (startSession 1 initial) = Some \<lparr>session_id = 1, session_status = Idle\<rparr>
   \<and> map status (taskQueue (handleTaskSubmit quiet 2 ''open the calculator'' (Inr []) 3 (startSession 1 initial))) = [Completed]
   \<and> executorInvocations (handleTaskSubmit quiet 2 ''open the calculator'' (Inr []) 3 (startSession 1 initial)) = 0
   \<and> vncCalls (handleTaskSubmit quiet 2 ''open the calculator'' (Inr []) 3 (startSession 1 initial)) = [connect]"
proof -
  have h: "currentSession (startSession 1 initial) = Some \<lparr>session_id = 1, session_status = Idle\<rparr>"
    by (simp add: startSession_def initial_def)
  have q: "taskQueue (startSession 1 initial) = []" "executorInvocations (startSession 1 initial) = 0"
    "vncCalls (startSession 1 initial) = [connect]"
    by (simp_all add: startSession_def initial_def executorInvocations_def)
  let ?s' = "handleTaskSubmit quiet 2 ''open the calculator'' (Inr []) 3 (startSession 1 initial)"
  note t = empty_response_completes [OF h, of quiet 2 "''open the calculator''" 3]
  from t q have len: "length (taskQueue ?s') = 1" by simp
  then obtain x where x: "taskQueue ?s' = [x]" by (cases "taskQueue ?s'") auto
  with t have "status x = Completed" by simp
  with x have "map status (taskQueue ?s') = [Completed]" by simp
  with t q h show ?thesis by simp
qed

text \<open>
  C10. A modal mounted with a timeout of zero or less never counts down: however often the
  interval's period passes, the state stays as it is, the request pending and nothing
  denied; only a click on Approve or Deny empties the slot.
\<close>

theorem nonpositive_timeout_stays_pending:
  assumes "safetyModal s = Some m" "timeLeft s = None" "timeout m \<le> 0"
  shows "ticks n (render s) = render s
    \<and> safetyModal (ticks n (render s)) = Some m
    \<and> actionStream (ticks n (render s)) = actionStream s
    \<and> safetyModal (clickDeny (ticks n (render s))) = None
    \<and> safetyModal (clickApprove env (ticks n (render s))) = None"
proof -
  have r: "safetyModal (render s) = Some m" "timeLeft (render s) = Some (timeout m)"
    "actionStream (render s) = actionStream s"
    using assms by (simp_all add: render_def)
  have still: "ticks n (render s) = render s"
    using r assms(3) by (intro ticks_nonpositive [of _ m "timeout m"]) simp_all
  have d: "safetyModal (clickDeny (render s)) = None"
    using r by (simp add: clickDeny_def render_def onDeny_def addActionToStream_def)
  have a: "safetyModal (clickApprove env (render s)) = None"
    using r by (simp add: clickApprove_def render_def onApprove_def)
  show ?thesis using still r d a by simp
qed

theorem nonpositive_timeout_stays_pending_witness:
  "ticks 100
     (render (initial\<lparr>safetyModal :=
        Some \<lparr>action = \<lparr>name = ''navigate'', args = [], safetyDecision = None\<rparr>,
              screenshot = None, reasoning = ''check'', timeout = 0\<rparr>\<rparr>))
   = initial\<lparr>safetyModal :=
        Some \<lparr>action = \<lparr>name = ''navigate'', args = [], safetyDecision = None\<rparr>,
              screenshot = None, reasoning = ''check'', timeout = 0\<rparr>,
       timeLeft := Some 0\<rparr>"
proof -
  let ?m = "\<lparr>action = \<lparr>name = ''navigate'', args = [], safetyDecision = None\<rparr>,
              screenshot = None, reasoning = ''check'', timeout = 0\<rparr>"
  let ?s = "initial\<lparr>safetyModal := Some ?m\<rparr>"
  have h: "safetyModal ?s = Some ?m" "timeLeft ?s = None" "timeout ?m \<le> 0"
    by (simp_all add: initial_def)
  have "ticks 100 (render ?s) = render ?s"
    using nonpositive_timeout_stays_pending [OF h] by blast
  moreover have "render ?s = ?s\<lparr>timeLeft := Some 0\<rparr>"
    by (simp add: render_def initial_def)
  ultimately show ?thesis by simp
qed

section \<open>A further property of the approval request\<close>

text \<open>
  X1. An explicit Approve at any moment before the countdown of a freshly opened request
  (timeout 30) runs out executes the held descriptor exactly once, empties the slot and
  unmounts the modal; no later firing of the interval changes anything, so no automatic
  denial follows.
\<close>

theorem approve_executes_once:
  assumes "requiresConfirmation a" "timeLeft s = None" "k < 30"
  shows "safetyModal (clickApprove env (ticks k (render (processAction env a shot s)))) = None
    \<and> timeLeft (clickApprove env (ticks k (render (processAction env a shot s)))) = None
    \<and> executorInvocations (clickApprove env (ticks k (render (processAction env a shot s))))
        = Suc (executorInvocations s)
    \<and> (\<forall>n. ticks n (clickApprove env (ticks k (render (processAction env a shot s))))
            = clickApprove env (ticks k (render (processAction env a shot s))))"
proof -
  let ?g = "render (processAction env a shot s)"
  let ?m = "\<lparr>action = a, screenshot = shot, reasoning = explanationOf a, timeout = 30\<rparr>"
  have g: "safetyModal ?g = Some ?m" "timeLeft ?g = Some 30"
    using open_gate [OF assms(1) assms(2)] by simp_all
  have gs: "actionStream ?g = actionStream (processAction env a shot s)"
    using g by (simp add: render_def split: option.splits)
  have tk: "ticks k ?g = ?g\<lparr>timeLeft := Some (30 - int k)\<rparr>"
    using g assms(3) by (intro ticks_countdown [of _ ?m]) simp_all
  let ?p = "?g\<lparr>timeLeft := Some (30 - int k)\<rparr>"
  have ap: "clickApprove env ?p = render (onApprove env ?m ?p)"
    using g by (simp add: clickApprove_def)
  have m0: "safetyModal (onApprove env ?m ?p) = None" by (simp add: onApprove_def)
  have ru: "render x = x\<lparr>timeLeft := None\<rparr>" if "safetyModal x = None" for x
    using that by (simp add: render_def)
  have ap': "clickApprove env ?p = (onApprove env ?m ?p)\<lparr>timeLeft := None\<rparr>"
    unfolding ap by (rule ru [OF m0])
  have r: "safetyModal (clickApprove env ?p) = None" "timeLeft (clickApprove env ?p) = None"
    unfolding ap' using m0 by simp_all
  have "executorInvocations (clickApprove env ?p) = executorInvocations (executeAction env a ?p)"
    unfolding ap' by (simp add: onApprove_def executorInvocations_def)
  also have "\<dots> = Suc (executorInvocations ?p)" by (rule executeAction_invocations)
  also have "executorInvocations ?p = executorInvocations (processAction env a shot s)"
    using gs by (simp add: executorInvocations_def)
  also have "\<dots> = executorInvocations s"
    using assms(1) by (simp add: processAction_invocations)
  finally have inv: "executorInvocations (clickApprove env ?p) = Suc (executorInvocations s)" .
  have stay: "ticks n (clickApprove env ?p) = clickApprove env ?p" for n
    using r(1) by (rule ticks_unmounted)
  show ?thesis using r inv stay by (simp add: tk)
qed

text \<open>The property at a concrete request, approved after twelve seconds.\<close>

theorem approve_executes_once_witness:
  "requiresConfirmation rcClick \<and> timeLeft (startSession 1 initial) = None \<and> (12::nat) < 30
   \<and> executorInvocations (clickApprove quiet (ticks 12
        (render (processAction quiet rcClick None (startSession 1 initial))))) = 1
   \<and> ticks 40 (clickApprove quiet (ticks 12
        (render (processAction quiet rcClick None (startSession 1 initial)))))
      = clickApprove quiet (ticks 12
        (render (processAction quiet rcClick None (startSession 1 initial))))"
proof -
  have h1: "requiresConfirmation rcClick" by code_simp
  have h2: "timeLeft (startSession 1 initial) = None" by (simp add: startSession_def initial_def)
  have h3: "(12::nat) < 30" by simp
  have e0: "executorInvocations (startSession 1 initial) = 0"
    by (simp add: startSession_def initial_def executorInvocations_def)
  note t = approve_executes_once [OF h1 h2 h3, of quiet None]
  from t e0 have a: "executorInvocations (clickApprove quiet (ticks 12
        (render (processAction quiet rcClick None (startSession 1 initial))))) = 1" by simp
  from t have b: "ticks 40 (clickApprove quiet (ticks 12
        (render (processAction quiet rcClick None (startSession 1 initial)))))
      = clickApprove quiet (ticks 12
        (render (processAction quiet rcClick None (startSession 1 initial))))" by blast
  show ?thesis using h1 h2 h3 a b by blast
qed

end
